theory Spec2Isabelle
  imports Main
begin

section \<open>Products\<close>

text \<open>
  A product as the scrapers build it:
  \<^verbatim>\<open>{ platform, name, price, image, rating, link }\<close>.
  A field that may be \<^verbatim>\<open>null\<close> is an option, \<open>None\<close> being \<^verbatim>\<open>null\<close>.
  Strings are lists of code units below 256; numbers are integers (the JavaScript numbers
  that are integer valued and of magnitude below \<open>2^53\<close>, on which subtraction is exact and
  the conversion to a string is the decimal numeral).
\<close>

record product =
  platform :: string
  name :: string
  price :: "int option"
  image :: "string option"
  rating :: "int option"
  link :: "string option"

section \<open>deduplicateAndSort\<close>

text \<open>
  \<^verbatim>\<open>String.prototype.toLowerCase\<close> on one code unit below 256: the capital letters are
  \<open>A\<close> to \<open>Z\<close> (65 to 90) and the Latin-1 capitals 192 to 222 without the multiplication
  sign 215; the small letter is 32 higher, which sets bit 5.
\<close>

definition toLowerCase_char :: "char \<Rightarrow> char" where
  "toLowerCase_char c =
     (let n = (of_char c :: nat)
      in if (65 \<le> n \<and> n \<le> 90) \<or> (192 \<le> n \<and> n \<le> 222 \<and> n \<noteq> 215)
         then (case c of Char b0 b1 b2 b3 b4 b5 b6 b7 \<Rightarrow> Char b0 b1 b2 b3 b4 True b6 b7)
         else c)"

definition toLowerCase :: "string \<Rightarrow> string" where
  "toLowerCase s = map toLowerCase_char s"

text \<open>\<^verbatim>\<open>s.substring(0, n)\<close>: the first \<open>n\<close> code units, all of \<open>s\<close> when it is shorter.\<close>

definition substring0 :: "nat \<Rightarrow> string \<Rightarrow> string" where
  "substring0 n s = take n s"

text \<open>The string of a number inside a template literal: the decimal numeral.\<close>

definition digit_char :: "nat \<Rightarrow> char" where
  "digit_char d = ''0123456789'' ! d"

function show_nat :: "nat \<Rightarrow> string" where
  "show_nat n =
     (if n < 10 then [digit_char n] else show_nat (n div 10) @ [digit_char (n mod 10)])"
  by pat_completeness auto
termination
  by (relation "measure id") auto

declare show_nat.simps [simp del]

definition show_int :: "int \<Rightarrow> string" where
  "show_int i = (if i < 0 then CHR ''-'' # show_nat (nat (- i)) else show_nat (nat i))"

definition show_price :: "int option \<Rightarrow> string" where
  "show_price v = (case v of None \<Rightarrow> ''null'' | Some i \<Rightarrow> show_int i)"

text \<open>
  The key of the loop:
  \<^verbatim>\<open>`${product.name.toLowerCase().substring(0, 50)}-${product.price}`\<close>.
\<close>

definition dedup_key :: "product \<Rightarrow> string" where
  "dedup_key p = substring0 50 (toLowerCase (name p)) @ ''-'' @ show_price (price p)"

text \<open>
  One round of \<^verbatim>\<open>products.forEach\<close>: the state is the array \<^verbatim>\<open>unique\<close> and the
  set \<^verbatim>\<open>seen\<close>.
\<close>

definition dedup_step :: "product list \<times> string set \<Rightarrow> product \<Rightarrow> product list \<times> string set" where
  "dedup_step st p =
     (let key = dedup_key p
      in if key \<notin> snd st then (fst st @ [p], insert key (snd st)) else st)"

definition unique_products :: "product list \<Rightarrow> product list" where
  "unique_products products = fst (foldl dedup_step ([], {}) products)"

text \<open>
  The comparator \<^verbatim>\<open>(a, b) => (a.price || 999999) - (b.price || 999999)\<close>.
  \<^verbatim>\<open>x || 999999\<close> is 999999 when \<open>x\<close> is falsy: \<^verbatim>\<open>null\<close> or \<open>0\<close>.
\<close>

definition price_or_sentinel :: "product \<Rightarrow> int" where
  "price_or_sentinel p = (case price p of None \<Rightarrow> 999999 | Some n \<Rightarrow> if n = 0 then 999999 else n)"

definition compare_price :: "product \<Rightarrow> product \<Rightarrow> int" where
  "compare_price a b = price_or_sentinel a - price_or_sentinel b"

text \<open>
  \<^verbatim>\<open>Array.prototype.sort\<close> with a comparator is a stable sort (ECMAScript 2019): on a
  comparator that is a consistent order, as the one above, every stable sort gives the same
  array. It is modelled by the stable insertion sort: an element goes in front of the first
  later element it does not exceed.
\<close>

fun insert_sorted :: "('a \<Rightarrow> 'a \<Rightarrow> int) \<Rightarrow> 'a \<Rightarrow> 'a list \<Rightarrow> 'a list" where
  "insert_sorted cmp x [] = [x]"
| "insert_sorted cmp x (y # ys) =
     (if cmp x y \<le> 0 then x # y # ys else y # insert_sorted cmp x ys)"

fun array_sort :: "('a \<Rightarrow> 'a \<Rightarrow> int) \<Rightarrow> 'a list \<Rightarrow> 'a list" where
  "array_sort cmp [] = []"
| "array_sort cmp (x # xs) = insert_sorted cmp x (array_sort cmp xs)"

definition deduplicateAndSort :: "product list \<Rightarrow> product list" where
  "deduplicateAndSort products = array_sort compare_price (unique_products products)"

text \<open>The products of the examples: only the name and the price matter.\<close>

definition mk_product :: "string \<Rightarrow> int option \<Rightarrow> product" where
  "mk_product n v =
     \<lparr>platform = ''Amazon'', name = n, price = v, image = None, rating = None, link = None\<rparr>"

section \<open>The browser pool\<close>

text \<open>
  A session is a browser handle, a caller is one call of \<^verbatim>\<open>acquireFromPool\<close> (the
  \<^verbatim>\<open>entry\<close> object it puts in \<^verbatim>\<open>pending\<close>). Both are objects compared by identity,
  modelled by numbers.

  The first four fields are the object \<^verbatim>\<open>this.browserPool\<close>. The others record what
  the methods do besides: the deadline timers that are armed, the replacement launches
  that \<^verbatim>\<open>removeBrowserFromPool\<close> has started and that have not finished, the acquire
  promises resolved so far (caller and session, in the order of the calls of
  \<^verbatim>\<open>resolve\<close>) and the callers rejected by their timer.

  \<^verbatim>\<open>this.browserPool\<close> is assigned in the constructor and only \<^verbatim>\<open>destroyPool\<close>, which
  nothing calls, resets it: the methods are modelled on the pool object, past their guard
  \<^verbatim>\<open>if (!this.browserPool)\<close>. JavaScript runs each method body to its end before another
  callback starts, so each is one step on the state.
\<close>

type_synonym session = nat
type_synonym caller = nat

record pool =
  pool_size :: nat
  browsers :: "session list"
  available :: "session list"
  pending :: "caller list"
  timers :: "caller list"
  replacing :: nat
  grants :: "(caller \<times> session) list"
  rejected :: "caller list"

definition empty_pool :: "nat \<Rightarrow> pool" where
  "empty_pool n =
     \<lparr>pool_size = n, browsers = [], available = [], pending = [], timers = [],
      replacing = 0, grants = [], rejected = []\<rparr>"

text \<open>The body of the launch loop, after a launch that succeeded: two pushes.\<close>

definition initLaunched :: "session \<Rightarrow> pool \<Rightarrow> pool" where
  "initLaunched b p = p\<lparr>browsers := browsers p @ [b], available := available p @ [b]\<rparr>"

text \<open>
  \<^verbatim>\<open>initializeBrowserPool\<close>: \<^verbatim>\<open>size = Math.max(1, this.poolSize)\<close> launches, the
  \<open>i\<close>-th giving \<open>launch i\<close> (\<open>None\<close> when \<^verbatim>\<open>puppeteer.launch\<close> throws, which the loop
  logs and passes over). The function is the loop run to its end with no other callback
  in between. Each launch is awaited and the constructor does not wait for the loop, so a
  caller can acquire between two rounds: the pool it finds is \<open>empty_pool\<close> after the
  rounds \<open>initLaunched\<close> done so far.
\<close>

definition initializeBrowserPool :: "int \<Rightarrow> (nat \<Rightarrow> session option) \<Rightarrow> pool" where
  "initializeBrowserPool poolSize launch =
     (let size = nat (max 1 poolSize)
      in foldl (\<lambda>p i. case launch i of Some b \<Rightarrow> initLaunched b p | None \<Rightarrow> p)
           (empty_pool size) [0..<size])"

text \<open>
  \<^verbatim>\<open>acquireFromPool\<close>, the synchronous part: a session of \<^verbatim>\<open>available\<close> is returned at
  once (\<^verbatim>\<open>shift\<close>); otherwise the caller's entry is pushed on \<^verbatim>\<open>pending\<close> and its
  timer is armed.
\<close>

definition acquireFromPool :: "caller \<Rightarrow> pool \<Rightarrow> pool" where
  "acquireFromPool c p =
     (case available p of
        b # rest \<Rightarrow> p\<lparr>available := rest, grants := grants p @ [(c, b)]\<rparr>
      | [] \<Rightarrow> p\<lparr>pending := pending p @ [c], timers := timers p @ [c]\<rparr>)"

text \<open>
  The timer callback of an entry. A timer that \<^verbatim>\<open>clearTimeout\<close> has cancelled does not
  fire; one that fires splices the entry out of \<^verbatim>\<open>pending\<close> when it is there and
  rejects the promise.
\<close>

definition acquireTimeout :: "caller \<Rightarrow> pool \<Rightarrow> pool" where
  "acquireTimeout c p =
     (if c \<in> set (timers p)
      then p\<lparr>pending := remove1 c (pending p), timers := remove1 c (timers p),
             rejected := rejected p @ [c]\<rparr>
      else p)"

text \<open>\<^verbatim>\<open>releaseToPool\<close>.\<close>

definition releaseToPool :: "session \<Rightarrow> pool \<Rightarrow> pool" where
  "releaseToPool b p =
     (case pending p of
        entry # rest \<Rightarrow>
          p\<lparr>pending := rest, timers := remove1 entry (timers p),
            grants := grants p @ [(entry, b)]\<rparr>
      | [] \<Rightarrow> p\<lparr>available := available p @ [b]\<rparr>)"

text \<open>
  \<^verbatim>\<open>removeBrowserFromPool\<close>, the synchronous part: \<^verbatim>\<open>indexOf\<close> and \<^verbatim>\<open>splice\<close> take
  the first occurrence out of \<^verbatim>\<open>browsers\<close> and out of \<^verbatim>\<open>available\<close> when there is
  one, and the launch of a replacement starts whether or not anything was taken out.
\<close>

definition removeBrowserFromPool :: "session \<Rightarrow> pool \<Rightarrow> pool" where
  "removeBrowserFromPool b p =
     p\<lparr>browsers := remove1 b (browsers p), available := remove1 b (available p),
       replacing := Suc (replacing p)\<rparr>"

text \<open>
  The rest of the asynchronous block of \<^verbatim>\<open>removeBrowserFromPool\<close>, once the launch has
  given the session \<open>nb\<close>: two pushes, then a pending entry, when there is one, is resolved
  with \<^verbatim>\<open>available.shift()\<close>. The list shifted holds \<open>nb\<close>, so it is not empty.
\<close>

definition replacementLaunched :: "session \<Rightarrow> pool \<Rightarrow> pool" where
  "replacementLaunched nb p =
     (let p1 = p\<lparr>browsers := browsers p @ [nb], available := available p @ [nb],
                 replacing := replacing p - 1\<rparr>
      in case pending p1 of
           entry # rest \<Rightarrow>
             p1\<lparr>pending := rest, timers := remove1 entry (timers p1),
                grants := grants p1 @ [(entry, hd (available p1))],
                available := tl (available p1)\<rparr>
         | [] \<Rightarrow> p1)"

text \<open>The launch of the replacement threw: the block logs it.\<close>

definition replacementFailed :: "pool \<Rightarrow> pool" where
  "replacementFailed p = p\<lparr>replacing := replacing p - 1\<rparr>"

datatype pool_op =
    Acquire caller
  | Timeout caller
  | Release session
  | Remove session
  | ReplacementLaunched session
  | ReplacementFailed

fun pool_step :: "pool_op \<Rightarrow> pool \<Rightarrow> pool" where
  "pool_step (Acquire c) p = acquireFromPool c p"
| "pool_step (Timeout c) p = acquireTimeout c p"
| "pool_step (Release b) p = releaseToPool b p"
| "pool_step (Remove b) p = removeBrowserFromPool b p"
| "pool_step (ReplacementLaunched nb) p = replacementLaunched nb p"
| "pool_step ReplacementFailed p = replacementFailed p"

fun pool_run :: "pool \<Rightarrow> pool_op list \<Rightarrow> pool" where
  "pool_run p [] = p"
| "pool_run p (x # xs) = pool_run (pool_step x p) xs"

text \<open>
  The sessions that are checked out: in the pool's list \<^verbatim>\<open>browsers\<close> and not in
  \<^verbatim>\<open>available\<close>.
\<close>

definition checked_out :: "pool \<Rightarrow> session list" where
  "checked_out p = filter (\<lambda>b. b \<notin> set (available p)) (browsers p)"

text \<open>
  No session idles while a caller waits.
\<close>

definition no_idle_while_waiting :: "pool \<Rightarrow> bool" where
  "no_idle_while_waiting p = (pending p = [] \<or> available p = [])"

text \<open>
  The use the orchestrator makes of the pool: a session is released by its holder (it is
  one of the pool's and not in \<^verbatim>\<open>available\<close>), the session removed is one of the
  pool's, the session a replacement launch gives is a new one, and a replacement launch
  finishes only when one is running.
\<close>

fun op_ok :: "pool_op \<Rightarrow> pool \<Rightarrow> bool" where
  "op_ok (Acquire c) p = True"
| "op_ok (Timeout c) p = True"
| "op_ok (Release b) p = (b \<in> set (browsers p) \<and> b \<notin> set (available p))"
| "op_ok (Remove b) p = (b \<in> set (browsers p))"
| "op_ok (ReplacementLaunched nb) p = (nb \<notin> set (browsers p) \<and> 0 < replacing p)"
| "op_ok ReplacementFailed p = (0 < replacing p)"

fun run_ok :: "pool \<Rightarrow> pool_op list \<Rightarrow> bool" where
  "run_ok p [] = True"
| "run_ok p (x # xs) = (op_ok x p \<and> run_ok (pool_step x p) xs)"

text \<open>The sessions the launches of \<^verbatim>\<open>initializeBrowserPool\<close> give, in order.\<close>

definition launched :: "int \<Rightarrow> (nat \<Rightarrow> session option) \<Rightarrow> session list" where
  "launched poolSize launch = List.map_filter launch [0..<nat (max 1 poolSize)]"

section \<open>withRetry\<close>

text \<open>
  What a task or a browser operation throws: an \<^verbatim>\<open>Error\<close> object with its message.
\<close>

datatype js_error = Error (message: string)

text \<open>\<^verbatim>\<open>RegExp.prototype.test\<close> on a pattern that is a plain string: a substring search.\<close>

fun includes_str :: "string \<Rightarrow> string \<Rightarrow> bool" where
  "includes_str pat [] = (pat = [])"
| "includes_str pat (c # cs) = (take (length pat) (c # cs) = pat \<or> includes_str pat cs)"

text \<open>\<^verbatim>\<open>/Protocol error|Connection closed|Timeout/.test(err.message || '')\<close>\<close>

definition is_transient :: "js_error \<Rightarrow> bool" where
  "is_transient err =
     (includes_str ''Protocol error'' (message err)
      \<or> includes_str ''Connection closed'' (message err)
      \<or> includes_str ''Timeout'' (message err))"

text \<open>
  The effects of \<^verbatim>\<open>withRetry\<close>: the waits \<^verbatim>\<open>setTimeout(r, 500 + i * 200)\<close> in
  milliseconds, in order, and the number of times the shared browser was closed and
  \<^verbatim>\<open>initializeBrowser\<close> called again (it catches every error of its own).
\<close>

record retry_state =
  delays :: "nat list"
  recoveries :: nat

text \<open>
  The loop \<^verbatim>\<open>for (let i = 0; i < attempts; i++)\<close>. \<open>task i\<close> is what the call number
  \<open>i\<close> of \<^verbatim>\<open>scraperFn(query)\<close> gives: \<open>Inr\<close> its value, \<open>Inl\<close> what it throws. What
  \<^verbatim>\<open>throw lastErr\<close> throws is \<open>None\<close> when \<^verbatim>\<open>lastErr\<close> is still undefined.
\<close>

function withRetry_loop ::
  "(nat \<Rightarrow> js_error + 'a) \<Rightarrow> nat \<Rightarrow> nat \<Rightarrow> js_error option \<Rightarrow> retry_state
     \<Rightarrow> (js_error option + 'a) \<times> retry_state" where
  "withRetry_loop task attempts i lastErr st =
     (if i < attempts then
        (case task i of
           Inr v \<Rightarrow> (Inr v, st)
         | Inl err \<Rightarrow>
             withRetry_loop task attempts (i + 1) (Some err)
               \<lparr>delays = delays st @ [500 + i * 200],
                recoveries = (if is_transient err then recoveries st + 1 else recoveries st)\<rparr>)
      else (Inl lastErr, st))"
  by pat_completeness auto
termination
  by (relation "measure (\<lambda>(task, attempts, i, lastErr, st). attempts - i)") auto

declare withRetry_loop.simps [simp del]

definition withRetry ::
  "(nat \<Rightarrow> js_error + 'a) \<Rightarrow> nat \<Rightarrow> retry_state \<Rightarrow> (js_error option + 'a) \<times> retry_state" where
  "withRetry task attempts st = withRetry_loop task attempts 0 None st"

text \<open>The backoff waits of the first \<open>k\<close> attempts.\<close>

definition backoff :: "nat \<Rightarrow> nat list" where
  "backoff k = map (\<lambda>i. 500 + i * 200) [0..<k]"

section \<open>scrapeSiteWithTempBrowser\<close>

text \<open>
  What the browser and the pool answer during one round of the loop of
  \<^verbatim>\<open>scrapeSiteWithTempBrowser\<close>: the outcome of \<^verbatim>\<open>acquireFromPool(30000)\<close> (\<open>Inl\<close>
  when it throws, as on its timeout), of \<^verbatim>\<open>pupp.launch\<close>, of \<^verbatim>\<open>browser.newPage()\<close>
  (\<open>Some\<close> the error it throws), of the statements from \<^verbatim>\<open>page.setViewport\<close> to the end
  of the site's branch (\<open>Inl\<close> the error of the first that throws, \<open>Inr\<close> what
  \<^verbatim>\<open>page.evaluate\<close> returns), and \<^verbatim>\<open>page.url()\<close>.
\<close>

record attempt_env =
  acquire_res :: "js_error + session"
  launch_res :: "js_error + session"
  newPage_res :: "js_error option"
  page_res :: "js_error + product list"
  page_url :: string

text \<open>The calls a round makes, in order.\<close>

datatype event =
    AcquireCall
  | LaunchCall
  | NewPageCall session
  | PageWork session
  | ReleaseCall session
  | RemoveCall session
  | CloseCall session
  | Wait nat

definition known_sites :: "string list" where
  "known_sites = [''amazon'', ''flipkart'', ''myntra'', ''snapdeal'']"

text \<open>
  \<^verbatim>\<open>let data = []\<close>, then the branch of the site; a site that is none of the four has no
  branch and leaves \<^verbatim>\<open>data\<close> empty.
\<close>

definition page_work :: "string \<Rightarrow> attempt_env \<Rightarrow> js_error + product list" where
  "page_work site env =
     (case page_res env of
        Inl e \<Rightarrow> Inl e
      | Inr d \<Rightarrow> Inr (if site \<in> set known_sites then d else []))"

text \<open>
  The link of a product, made absolute: \<^verbatim>\<open>p.link || null\<close>, kept when
  \<^verbatim>\<open>/^https?:\/\//i\<close> matches, else \<^verbatim>\<open>new URL(link, base).href\<close>, and kept as it is
  when that throws. \<open>resolve\<close> is \<^verbatim>\<open>new URL(link, base).href\<close>, \<open>None\<close> when it throws.
\<close>

definition is_absolute_url :: "string \<Rightarrow> bool" where
  "is_absolute_url l =
     (toLowerCase (take 7 l) = ''http://'' \<or> toLowerCase (take 8 l) = ''https://'')"

definition normalize_link ::
  "(string \<Rightarrow> string \<Rightarrow> string option) \<Rightarrow> string \<Rightarrow> product \<Rightarrow> product" where
  "normalize_link resolve base p =
     p\<lparr>link :=
         (case link p of
            None \<Rightarrow> None
          | Some l \<Rightarrow>
              if l = [] then None
              else if is_absolute_url l then Some l
              else (case resolve l base of Some h \<Rightarrow> Some h | None \<Rightarrow> Some l))\<rparr>"

text \<open>
  The round from \<^verbatim>\<open>browser.newPage()\<close> on, with the browser \<open>b\<close> and the flag
  \<^verbatim>\<open>borrowedFromPool\<close>. When \<^verbatim>\<open>newPage\<close> throws, a borrowed browser is removed from the
  pool, the browser is closed and the error thrown again; the outer handler then finds
  \<^verbatim>\<open>browser\<close> null. When a later statement throws, the outer handler removes a borrowed
  browser from the pool and closes one that is not. Without an error a borrowed browser is
  released and one that is not is closed.
\<close>

definition scrape_with_browser ::
  "(string \<Rightarrow> string \<Rightarrow> string option) \<Rightarrow> string \<Rightarrow> attempt_env \<Rightarrow> session \<Rightarrow> bool
     \<Rightarrow> (js_error + product list) \<times> event list" where
  "scrape_with_browser resolve site env b borrowed =
     (case newPage_res env of
        Some e \<Rightarrow>
          (Inl e, [NewPageCall b] @ (if borrowed then [RemoveCall b] else []) @ [CloseCall b])
      | None \<Rightarrow>
          (case page_work site env of
             Inl e \<Rightarrow>
               (Inl e, [NewPageCall b, PageWork b, if borrowed then RemoveCall b else CloseCall b])
           | Inr data \<Rightarrow>
               (Inr (map (normalize_link resolve (page_url env)) data),
                [NewPageCall b, PageWork b, if borrowed then ReleaseCall b else CloseCall b])))"

text \<open>
  One round of the loop, \<^verbatim>\<open>browser\<close> being null at its start: with a pool
  (\<^verbatim>\<open>this.browserPool\<close>) a session is asked of it, and when there is no pool or
  \<^verbatim>\<open>acquireFromPool\<close> throws a browser is launched.
\<close>

definition scrape_attempt ::
  "(string \<Rightarrow> string \<Rightarrow> string option) \<Rightarrow> bool \<Rightarrow> string \<Rightarrow> attempt_env
     \<Rightarrow> (js_error + product list) \<times> event list" where
  "scrape_attempt resolve has_pool site env =
     (let acquired = (if has_pool then (case acquire_res env of Inr b \<Rightarrow> Some b | Inl e \<Rightarrow> None)
                      else None);
          tr = (if has_pool then [AcquireCall] else [])
      in case acquired of
           Some b \<Rightarrow>
             (case scrape_with_browser resolve site env b True of (r, t) \<Rightarrow> (r, tr @ t))
         | None \<Rightarrow>
             (case launch_res env of
                Inl e \<Rightarrow> (Inl e, tr @ [LaunchCall])
              | Inr b \<Rightarrow>
                  (case scrape_with_browser resolve site env b False of
                     (r, t) \<Rightarrow> (r, tr @ [LaunchCall] @ t))))"

text \<open>
  The error thrown after the loop:
  \<^verbatim>\<open>new Error(lastErr ? (lastErr.message || String(lastErr)) : 'temp-scrape failed')\<close>.
  The string of an \<^verbatim>\<open>Error\<close> with an empty message is its name.
\<close>

definition final_error :: "js_error option \<Rightarrow> js_error" where
  "final_error lastErr =
     (case lastErr of
        Some e \<Rightarrow> Error (if message e \<noteq> [] then message e else ''Error'')
      | None \<Rightarrow> Error ''temp-scrape failed'')"

text \<open>
  The loop \<^verbatim>\<open>for (let attempt = 0; attempt < 2; attempt++)\<close>: a round that returns ends
  it, a round that throws is followed by a wait of 600 ms and the next round. \<open>envs n\<close> is
  what the world answers in round \<open>n\<close>.
\<close>

function scrape_loop ::
  "(string \<Rightarrow> string \<Rightarrow> string option) \<Rightarrow> bool \<Rightarrow> string \<Rightarrow> (nat \<Rightarrow> attempt_env) \<Rightarrow> nat
     \<Rightarrow> js_error option \<Rightarrow> event list \<Rightarrow> (js_error + product list) \<times> event list" where
  "scrape_loop resolve has_pool site envs attempt lastErr tr =
     (if attempt < 2 then
        (case scrape_attempt resolve has_pool site (envs attempt) of
           (Inr normalized, t) \<Rightarrow> (Inr normalized, tr @ t)
         | (Inl err, t) \<Rightarrow>
             scrape_loop resolve has_pool site envs (attempt + 1) (Some err)
               (tr @ t @ [Wait 600]))
      else (Inl (final_error lastErr), tr))"
  by pat_completeness auto
termination
  by (relation "measure (\<lambda>(resolve, has_pool, site, envs, attempt, lastErr, tr). 2 - attempt)")
    auto

declare scrape_loop.simps [simp del]

definition scrapeSiteWithTempBrowser ::
  "(string \<Rightarrow> string \<Rightarrow> string option) \<Rightarrow> bool \<Rightarrow> string \<Rightarrow> (nat \<Rightarrow> attempt_env)
     \<Rightarrow> (js_error + product list) \<times> event list" where
  "scrapeSiteWithTempBrowser resolve has_pool site envs =
     scrape_loop resolve has_pool site envs 0 None []"

section \<open>scrapeMultipleSites and the route\<close>

text \<open>
  One round of the loop over \<^verbatim>\<open>sites\<close>: a result that is not empty is pushed on
  \<^verbatim>\<open>products\<close>, an empty one and an error are logged. \<open>world site\<close> is what the world
  answers while that site is scraped.
\<close>

definition site_step ::
  "(string \<Rightarrow> string \<Rightarrow> string option) \<Rightarrow> bool \<Rightarrow> (string \<Rightarrow> nat \<Rightarrow> attempt_env)
     \<Rightarrow> product list \<times> event list \<Rightarrow> string \<Rightarrow> product list \<times> event list" where
  "site_step resolve has_pool world acc site =
     (case scrapeSiteWithTempBrowser resolve has_pool site (world site) of
        (Inr result, t) \<Rightarrow>
          (if result \<noteq> [] then fst acc @ result else fst acc, snd acc @ t)
      | (Inl err, t) \<Rightarrow> (fst acc, snd acc @ t))"

definition scrapeMultipleSites ::
  "(string \<Rightarrow> string \<Rightarrow> string option) \<Rightarrow> bool \<Rightarrow> (string \<Rightarrow> nat \<Rightarrow> attempt_env)
     \<Rightarrow> product list \<times> event list" where
  "scrapeMultipleSites resolve has_pool world =
     (case foldl (site_step resolve has_pool world) ([], []) known_sites of
        (products, t) \<Rightarrow> (deduplicateAndSort products, t))"

text \<open>
  What a site adds to \<^verbatim>\<open>products\<close>: its result, nothing when the scrape throws.
\<close>

definition site_result ::
  "(string \<Rightarrow> string \<Rightarrow> string option) \<Rightarrow> bool \<Rightarrow> (string \<Rightarrow> nat \<Rightarrow> attempt_env)
     \<Rightarrow> string \<Rightarrow> product list" where
  "site_result resolve has_pool world site =
     (case fst (scrapeSiteWithTempBrowser resolve has_pool site (world site)) of
        Inr result \<Rightarrow> result
      | Inl err \<Rightarrow> [])"

text \<open>
  \<^verbatim>\<open>String.prototype.trim\<close> on code units below 256: the white space is tab, line feed,
  vertical tab, form feed, carriage return, space and the no-break space.
\<close>

definition is_space :: "char \<Rightarrow> bool" where
  "is_space c = ((of_char c :: nat) \<in> {9, 10, 11, 12, 13, 32, 160})"

definition trim :: "string \<Rightarrow> string" where
  "trim s = rev (dropWhile is_space (rev (dropWhile is_space s)))"

text \<open>
  The field \<^verbatim>\<open>query\<close> of the request body: a string, a value that is falsy and not a
  string (the field is missing, or \<^verbatim>\<open>null\<close>, \<open>0\<close>, \<^verbatim>\<open>false\<close>), or a truthy value that
  is not a string, on which \<^verbatim>\<open>query.trim\<close> is not a function.
\<close>

datatype query_field = Str string | Falsy | Truthy_other

datatype response_body =
    ErrorBody string
  | FailureBody string string
  | ResultsBody string "product list"

record response =
  status :: nat
  body :: response_body

text \<open>
  The handler of \<^verbatim>\<open>POST /api/compare-prices\<close>, on a request whose body is an object.
  \<^verbatim>\<open>res.json\<close> without \<^verbatim>\<open>res.status\<close> answers 200; the field \<^verbatim>\<open>timestamp\<close> of
  the body, the clock, is left out. The products the scrapers build have a name that is a
  string, so \<^verbatim>\<open>deduplicateAndSort\<close> does not throw and the handler's \<^verbatim>\<open>catch\<close> is
  reached only from \<^verbatim>\<open>query.trim\<close>.
\<close>

definition compare_prices ::
  "(string \<Rightarrow> string \<Rightarrow> string option) \<Rightarrow> bool \<Rightarrow> (string \<Rightarrow> nat \<Rightarrow> attempt_env)
     \<Rightarrow> query_field \<Rightarrow> response" where
  "compare_prices resolve has_pool world q =
     (case q of
        Falsy \<Rightarrow> \<lparr>status = 400, body = ErrorBody ''Query must be at least 2 characters long''\<rparr>
      | Truthy_other \<Rightarrow>
          \<lparr>status = 500,
           body = FailureBody ''Failed to fetch product data'' ''query.trim is not a function''\<rparr>
      | Str query \<Rightarrow>
          if query = [] \<or> length (trim query) < 2
          then \<lparr>status = 400, body = ErrorBody ''Query must be at least 2 characters long''\<rparr>
          else \<lparr>status = 200,
                body = ResultsBody (trim query) (fst (scrapeMultipleSites resolve has_pool world))\<rparr>)"

section \<open>Invariants and example worlds\<close>

text \<open>
  The pool's lists hold each session once, a session of \<^verbatim>\<open>available\<close> is one of
  \<^verbatim>\<open>browsers\<close>, and the sessions of the pool and the replacements being launched are
  no more than its size.
\<close>

definition pool_inv :: "pool \<Rightarrow> bool" where
  "pool_inv p =
     (distinct (browsers p) \<and> distinct (available p) \<and> set (available p) \<subseteq> set (browsers p)
      \<and> length (browsers p) + replacing p \<le> pool_size p)"

text \<open>Launches that all succeed and give the sessions \<open>k\<close>, \<open>k + 1\<close>, ...\<close>

definition launch_from :: "nat \<Rightarrow> nat \<Rightarrow> session option" where
  "launch_from k i = Some (k + i)"

text \<open>
  A task that throws a protocol error on its first \<open>k\<close> calls and returns \<open>v\<close> on the
  next, a task that throws on every call an error telling the number of the call, and the
  state before \<^verbatim>\<open>withRetry\<close> has waited.
\<close>

definition flaky_task :: "nat \<Rightarrow> 'a \<Rightarrow> nat \<Rightarrow> js_error + 'a" where
  "flaky_task k v i =
     (if i < k then Inl (Error ''Protocol error (Target.createTarget): Target closed'')
      else Inr v)"

definition failing_task :: "nat \<Rightarrow> js_error + 'a" where
  "failing_task i = Inl (Error (''net::ERR_FAILED on call '' @ show_nat i))"

definition retry_start :: retry_state where
  "retry_start = \<lparr>delays = [], recoveries = 0\<rparr>"

text \<open>A round whose every call throws, and worlds built of one round.\<close>

definition failing_env :: attempt_env where
  "failing_env =
     \<lparr>acquire_res = Inl (Error ''Pool acquire timeout''),
      launch_res = Inl (Error ''Failed to launch the browser process''),
      newPage_res = Some (Error ''Protocol error''),
      page_res = Inl (Error ''Navigation timeout of 30000 ms exceeded''),
      page_url = ''about:blank''\<rparr>"

text \<open>A round in which the pool gives the session \<open>b\<close> and the page work gives \<open>r\<close>.\<close>

definition pooled_env :: "session \<Rightarrow> js_error + product list \<Rightarrow> attempt_env" where
  "pooled_env b r =
     \<lparr>acquire_res = Inr b, launch_res = Inr (b + 100), newPage_res = None, page_res = r,
      page_url = ''https://www.amazon.in/s?k=phone''\<rparr>"

text \<open>
  The world that answers \<open>e0\<close> in the first round and \<open>e1\<close> in the next, and the
  world in which every call of every round throws.
\<close>

definition two_rounds :: "attempt_env \<Rightarrow> attempt_env \<Rightarrow> nat \<Rightarrow> attempt_env" where
  "two_rounds e0 e1 n = (if n = 0 then e0 else e1)"

definition dead_world :: "string \<Rightarrow> nat \<Rightarrow> attempt_env" where
  "dead_world site n = failing_env"

definition no_resolve :: "string \<Rightarrow> string \<Rightarrow> string option" where
  "no_resolve l base = None"

section \<open>Properties of deduplicateAndSort\<close>

lemma insert_sorted_insort_key:
  "insert_sorted compare_price x ys = insort_key price_or_sentinel x ys"
  by (induction ys) (auto simp: compare_price_def)

lemma array_sort_sort_key:
  "array_sort compare_price xs = sort_key price_or_sentinel xs"
  by (induction xs) (simp_all add: sort_key_def insert_sorted_insort_key)



lemma unique_products_Nil: "unique_products [] = []"
  by (simp add: unique_products_def)



lemma sorted_out: "sorted (map price_or_sentinel (deduplicateAndSort ps))"
  by (simp add: deduplicateAndSort_def array_sort_sort_key)

lemma null_stable: "filter (\<lambda>p. price p = None) (deduplicateAndSort ps) = filter (\<lambda>p. price p = None) (unique_products ps)"
proof -
  let ?u = "unique_products ps"
  have imp: "\<And>xs. filter (\<lambda>p. price p = None) xs
      = filter (\<lambda>p. price p = None) (filter (\<lambda>p. price_or_sentinel p = 999999) xs)"
    by (simp add: price_or_sentinel_def cong: conj_cong) (metis (mono_tags, lifting) option.simps(4))
  show ?thesis
    by (metis imp deduplicateAndSort_def array_sort_sort_key sort_key_stable)
qed

lemmas dedup_eval = deduplicateAndSort_def unique_products_def dedup_step_def dedup_key_def
      substring0_def toLowerCase_def toLowerCase_char_def show_price_def show_int_def
      show_nat.simps digit_char_def mk_product_def compare_price_def price_or_sentinel_def



lemma sorted_positions:
  assumes "sorted (map f xs)" "i < length xs" "j < length xs" "f (xs ! j) < f (xs ! i)"
  shows "j < i"
proof (rule ccontr)
  assume "\<not> j < i"
  then have "i \<le> j" by simp
  then have "map f xs ! i \<le> map f xs ! j"
    using assms(1,3) by (simp add: sorted_iff_nth_mono del: nth_map)
  then show False using assms by simp
qed

text \<open>
  Claim C7, amended. The result is sorted ascending by the price with 999999 standing for
  a price that is null or 0. The products without a price keep the order they have after
  deduplication, and each of them stands after every product whose price is not 0 and is
  below 999999. The example list gives the priced product first and the two products
  without a price after it, in their order.
\<close>

theorem C7_sorted_with_sentinel:
  "sorted (map price_or_sentinel (deduplicateAndSort ps))
   \<and> price_or_sentinel p = (case price p of None \<Rightarrow> 999999 | Some n \<Rightarrow> if n = 0 then 999999 else n)
   \<and> filter (\<lambda>q. price q = None) (deduplicateAndSort ps)
       = filter (\<lambda>q. price q = None) (unique_products ps)
   \<and> (i < length (deduplicateAndSort ps) \<and> j < length (deduplicateAndSort ps)
        \<and> price (deduplicateAndSort ps ! i) = None
        \<and> price (deduplicateAndSort ps ! j) = Some n \<and> n \<noteq> 0 \<and> n < 999999
       \<longrightarrow> j < i)
   \<and> deduplicateAndSort [mk_product ''A'' None, mk_product ''B'' (Some 10), mk_product ''C'' None]
       = [mk_product ''B'' (Some 10), mk_product ''A'' None, mk_product ''C'' None]"
proof -
  have pos: "j < i"
    if "i < length (deduplicateAndSort ps)" "j < length (deduplicateAndSort ps)"
      "price (deduplicateAndSort ps ! i) = None"
      "price (deduplicateAndSort ps ! j) = Some n" "n \<noteq> 0" "n < 999999"
  proof -
    have "price_or_sentinel (deduplicateAndSort ps ! j) < price_or_sentinel (deduplicateAndSort ps ! i)"
      using that by (simp add: price_or_sentinel_def)
    then show ?thesis
      using sorted_positions [OF sorted_out [of ps] that(1) that(2)] by simp
  qed
  have ex: "deduplicateAndSort [mk_product ''A'' None, mk_product ''B'' (Some 10), mk_product ''C'' None]
       = [mk_product ''B'' (Some 10), mk_product ''A'' None, mk_product ''C'' None]"
    by (simp add: dedup_eval)
  show ?thesis
    using pos ex sorted_out [of ps] null_stable [of ps]
    by (simp add: price_or_sentinel_def)
qed

text \<open>Claim C7 on a product without a price and one priced at 10.\<close>

theorem C7_witness:
  "deduplicateAndSort [mk_product ''A'' None, mk_product ''B'' (Some 10)]
      = [mk_product ''B'' (Some 10), mk_product ''A'' None]
   \<and> price (deduplicateAndSort [mk_product ''A'' None, mk_product ''B'' (Some 10)] ! 1) = None
   \<and> price (deduplicateAndSort [mk_product ''A'' None, mk_product ''B'' (Some 10)] ! 0) = Some 10
   \<and> sorted (map price_or_sentinel
         (deduplicateAndSort [mk_product ''A'' None, mk_product ''B'' (Some 10)]))"
proof -
  have ev: "deduplicateAndSort [mk_product ''A'' None, mk_product ''B'' (Some 10)]
      = [mk_product ''B'' (Some 10), mk_product ''A'' None]"
    by (simp add: dedup_eval)
  have "sorted (map price_or_sentinel
         (deduplicateAndSort [mk_product ''A'' None, mk_product ''B'' (Some 10)]))"
    using C7_sorted_with_sentinel
      [of "[mk_product ''A'' None, mk_product ''B'' (Some 10)]" "mk_product ''A'' None" 1 0 10]
    by (rule conjunct1)
  then show ?thesis using ev by (simp add: mk_product_def)
qed

text \<open>
  Claim C7 as stated fails: a product without a price stands before a product priced at
  1000000.
\<close>

theorem C7_counterexample:
  "map price (deduplicateAndSort [mk_product ''A'' None, mk_product ''B'' (Some 1000000)])
     = [None, Some 1000000]"
  by (simp add: dedup_eval)

text \<open>
  Claim C10, amended. A product priced at 0 is sorted by 999999, as a product without a
  price is: the comparator finds the two equal, a product priced above 0 and below 999999
  compares smaller and stands before it in the result. Its key ends in the literal 0 where
  the key of the same product without a price ends in null.
\<close>

theorem C10_zero_price_sorts_as_missing:
  "price p = Some 0 \<longrightarrow>
     price_or_sentinel p = 999999
     \<and> price_or_sentinel (p\<lparr>price := None\<rparr>) = 999999
     \<and> (price q = None \<longrightarrow> compare_price p q = 0 \<and> compare_price q p = 0)
     \<and> (price q = Some n \<and> 0 < n \<and> n < 999999 \<longrightarrow> compare_price q p < 0)
     \<and> (i < length (deduplicateAndSort ps) \<and> j < length (deduplicateAndSort ps)
          \<and> deduplicateAndSort ps ! i = p
          \<and> price (deduplicateAndSort ps ! j) = Some n \<and> 0 < n \<and> n < 999999
         \<longrightarrow> j < i)
     \<and> dedup_key p = take 50 (toLowerCase (name p)) @ ''-0''
     \<and> dedup_key (p\<lparr>price := None\<rparr>) = take 50 (toLowerCase (name p)) @ ''-null''"
proof
  assume z: "price p = Some 0"
  have pos: "j < i"
    if "i < length (deduplicateAndSort ps)" "j < length (deduplicateAndSort ps)"
      "deduplicateAndSort ps ! i = p"
      "price (deduplicateAndSort ps ! j) = Some n" "0 < n" "n < 999999"
  proof -
    have "price_or_sentinel (deduplicateAndSort ps ! j) < price_or_sentinel (deduplicateAndSort ps ! i)"
      using that z by (simp add: price_or_sentinel_def)
    then show ?thesis
      using sorted_positions [OF sorted_out [of ps] that(1) that(2)] by simp
  qed
  have keys: "dedup_key p = take 50 (toLowerCase (name p)) @ ''-0''"
    "dedup_key (p\<lparr>price := None\<rparr>) = take 50 (toLowerCase (name p)) @ ''-null''"
    using z by (simp_all add: dedup_key_def substring0_def show_price_def show_int_def
        show_nat.simps digit_char_def)
  show "price_or_sentinel p = 999999
     \<and> price_or_sentinel (p\<lparr>price := None\<rparr>) = 999999
     \<and> (price q = None \<longrightarrow> compare_price p q = 0 \<and> compare_price q p = 0)
     \<and> (price q = Some n \<and> 0 < n \<and> n < 999999 \<longrightarrow> compare_price q p < 0)
     \<and> (i < length (deduplicateAndSort ps) \<and> j < length (deduplicateAndSort ps)
          \<and> deduplicateAndSort ps ! i = p
          \<and> price (deduplicateAndSort ps ! j) = Some n \<and> 0 < n \<and> n < 999999
         \<longrightarrow> j < i)
     \<and> dedup_key p = take 50 (toLowerCase (name p)) @ ''-0''
     \<and> dedup_key (p\<lparr>price := None\<rparr>) = take 50 (toLowerCase (name p)) @ ''-null''"
    using z pos keys by (simp add: price_or_sentinel_def compare_price_def)
qed

text \<open>Claim C10 on a product priced at 0 and one priced at 10.\<close>

theorem C10_witness:
  "deduplicateAndSort [mk_product ''Free'' (Some 0), mk_product ''B'' (Some 10)]
      = [mk_product ''B'' (Some 10), mk_product ''Free'' (Some 0)]
   \<and> dedup_key (mk_product ''Free'' (Some 0)) = ''free-0''
   \<and> price_or_sentinel (mk_product ''Free'' (Some 0)) = 999999"
proof -
  have ev: "deduplicateAndSort [mk_product ''Free'' (Some 0), mk_product ''B'' (Some 10)]
      = [mk_product ''B'' (Some 10), mk_product ''Free'' (Some 0)]"
    by (simp add: dedup_eval)
  have z: "price (mk_product ''Free'' (Some 0)) = Some 0"
    by (simp add: mk_product_def)
  have lower: "take 50 (toLowerCase (name (mk_product ''Free'' (Some 0)))) = ''free''"
    by (simp add: mk_product_def toLowerCase_def toLowerCase_char_def)
  show ?thesis
    using C10_zero_price_sorts_as_missing
      [of "mk_product ''Free'' (Some 0)" "mk_product ''A'' None" 10
        1 "[mk_product ''Free'' (Some 0), mk_product ''B'' (Some 10)]" 0] z ev lower
    by simp
qed

text \<open>
  Claim C10 as stated fails: a product priced at 0 stands before a product priced at
  1000000.
\<close>

theorem C10_counterexample:
  "map price (deduplicateAndSort [mk_product ''Free'' (Some 0), mk_product ''B'' (Some 1000000)])
     = [Some 0, Some 1000000]"
  by (simp add: dedup_eval)

section \<open>Properties of the browser pool\<close>

lemma distinct_tl_subset:
  "distinct xs \<Longrightarrow> distinct (tl xs) \<and> set (tl xs) \<subseteq> set xs"
  by (cases xs) auto

lemma pool_inv_step: "pool_inv p \<Longrightarrow> op_ok x p \<Longrightarrow> pool_inv (pool_step x p)"
proof (cases x)
  case (Acquire c)
  assume "pool_inv p" then show ?thesis using Acquire
    by (auto simp: pool_inv_def acquireFromPool_def split: list.splits)
next
  case (Timeout c)
  assume "pool_inv p" then show ?thesis using Timeout
    by (auto simp: pool_inv_def acquireTimeout_def)
next
  case (Release b)
  assume "pool_inv p" "op_ok x p" then show ?thesis using Release
    by (auto simp: pool_inv_def releaseToPool_def split: list.splits)
next
  case (Remove b)
  assume "pool_inv p" "op_ok x p" then show ?thesis using Remove
    by (auto simp: pool_inv_def removeBrowserFromPool_def length_remove1
        ; (metis Suc_pred length_pos_if_in_set add_Suc)?)
next
  case (ReplacementLaunched nb)
  assume inv: "pool_inv p" and ok: "op_ok x p"
  have d: "distinct (available p @ [nb])"
    using inv ok ReplacementLaunched by (auto simp: pool_inv_def)
  have t: "distinct (tl (available p @ [nb]))" "set (tl (available p @ [nb])) \<subseteq> set (available p @ [nb])"
    using distinct_tl_subset [OF d] by simp_all
  show ?thesis using inv ok ReplacementLaunched t
    by (auto simp: pool_inv_def replacementLaunched_def Let_def split: list.splits)
next
  case ReplacementFailed
  assume "pool_inv p" "op_ok x p" then show ?thesis using ReplacementFailed
    by (auto simp: pool_inv_def replacementFailed_def)
qed


lemma length_checked_out:
  assumes "pool_inv p"
  shows "length (checked_out p) + length (available p) = length (browsers p)"
proof -
  let ?P = "\<lambda>b. b \<in> set (available p)"
  have "set (filter ?P (browsers p)) = set (available p)"
    using assms by (auto simp: pool_inv_def)
  moreover have "distinct (filter ?P (browsers p))" "distinct (available p)"
    using assms by (auto simp: pool_inv_def)
  ultimately have "length (filter ?P (browsers p)) = length (available p)"
    by (metis distinct_card)
  moreover have "length (filter ?P (browsers p)) + length (filter (\<lambda>b. \<not> ?P b) (browsers p)) = length (browsers p)"
    by (rule sum_length_filter_compl)
  ultimately show ?thesis by (simp add: checked_out_def)
qed

lemma pool_inv_run: "pool_inv p \<Longrightarrow> run_ok p xs \<Longrightarrow> pool_inv (pool_run p xs)"
  by (induction xs arbitrary: p) (auto simp: pool_inv_step)

lemma foldl_initLaunched:
  "foldl (\<lambda>p i. case launch i of Some b \<Rightarrow> initLaunched b p | None \<Rightarrow> p) p xs
     = p\<lparr>browsers := browsers p @ List.map_filter launch xs,
          available := available p @ List.map_filter launch xs\<rparr>"
  by (induction xs arbitrary: p) (auto simp: List.map_filter_simps initLaunched_def split: option.splits)

lemma initializeBrowserPool_eq:
  "initializeBrowserPool n launch =
     (empty_pool (nat (max 1 n)))\<lparr>browsers := launched n launch, available := launched n launch\<rparr>"
  by (simp add: initializeBrowserPool_def Let_def foldl_initLaunched launched_def empty_pool_def)

lemma length_launched: "length (launched n launch) \<le> nat (max 1 n)"
  by (simp add: launched_def List.map_filter_def) (metis length_filter_le length_upt diff_zero)

lemma pool_inv_init:
  "distinct (launched n launch) \<Longrightarrow> pool_inv (initializeBrowserPool n launch)"
  using length_launched [of n launch]
  by (simp add: initializeBrowserPool_eq pool_inv_def empty_pool_def)

lemma no_idle_step: "no_idle_while_waiting p \<Longrightarrow> no_idle_while_waiting (pool_step x p)"
  by (cases x)
    (auto simp: no_idle_while_waiting_def acquireFromPool_def acquireTimeout_def releaseToPool_def
      removeBrowserFromPool_def replacementLaunched_def replacementFailed_def Let_def
      split: list.splits)

lemma no_idle_run: "no_idle_while_waiting p \<Longrightarrow> no_idle_while_waiting (pool_run p xs)"
  by (induction xs arbitrary: p) (auto simp: no_idle_step)

lemma grant_to_head:
  assumes "no_idle_while_waiting p" and "grants (pool_step x p) = grants p @ [(c, b)]"
  shows "(pending p = [] \<and> x = Acquire c)
         \<or> (\<exists>rest. pending p = c # rest \<and> pending (pool_step x p) = rest)"
  using assms
  by (cases x)
    (auto simp: no_idle_while_waiting_def acquireFromPool_def acquireTimeout_def releaseToPool_def
      removeBrowserFromPool_def replacementLaunched_def replacementFailed_def Let_def
      split: list.splits if_splits)

lemma grants_step:
  "grants (pool_step x p) = grants p \<or> (\<exists>c b. grants (pool_step x p) = grants p @ [(c, b)])"
  by (cases x)
    (auto simp: acquireFromPool_def acquireTimeout_def releaseToPool_def
      removeBrowserFromPool_def replacementLaunched_def replacementFailed_def Let_def
      split: list.splits if_splits)

lemma pending_step:
  "\<exists>c. pending (pool_step x p) = pending p \<or> pending (pool_step x p) = pending p @ [c]
     \<or> pending (pool_step x p) = tl (pending p) \<or> pending (pool_step x p) = remove1 c (pending p)"
  by (cases x)
    (auto simp: acquireFromPool_def acquireTimeout_def releaseToPool_def
      removeBrowserFromPool_def replacementLaunched_def replacementFailed_def Let_def
      split: list.splits if_splits)

lemma pool_run_append: "pool_run p (xs @ ys) = pool_run (pool_run p xs) ys"
  by (induction xs arbitrary: p) auto

lemma acquire_many:
  "grants (pool_run p (map Acquire cs)) = grants p @ zip cs (available p)
   \<and> pending (pool_run p (map Acquire cs)) = pending p @ drop (length (available p)) cs
   \<and> available (pool_run p (map Acquire cs)) = drop (length cs) (available p)"
proof (induction cs arbitrary: p)
  case Nil
  show ?case by simp
next
  case (Cons c cs)
  show ?case
  proof (cases "available p")
    case Nil
    then show ?thesis using Cons [of "acquireFromPool c p"]
      by (simp add: acquireFromPool_def)
  next
    case (Cons b rest)
    then show ?thesis using Cons.IH [of "acquireFromPool c p"]
      by (simp add: acquireFromPool_def)
  qed
qed

lemma release_many:
  "grants (pool_run p (map Release bs)) = grants p @ zip (pending p) bs
   \<and> pending (pool_run p (map Release bs)) = drop (length bs) (pending p)
   \<and> available (pool_run p (map Release bs)) = available p @ drop (length (pending p)) bs"
proof (induction bs arbitrary: p)
  case Nil
  show ?case by simp
next
  case (Cons b bs)
  show ?case
  proof (cases "pending p")
    case Nil
    then show ?thesis using Cons [of "releaseToPool b p"]
      by (simp add: releaseToPool_def)
  next
    case (Cons e rest)
    then show ?thesis using Cons.IH [of "releaseToPool b p"]
      by (simp add: releaseToPool_def)
  qed
qed

lemma init_fields:
  "pending (initializeBrowserPool n launch) = []"
  "grants (initializeBrowserPool n launch) = []"
  "available (initializeBrowserPool n launch) = launched n launch"
  "browsers (initializeBrowserPool n launch) = launched n launch"
  "pool_size (initializeBrowserPool n launch) = nat (max 1 n)"
  by (simp_all add: initializeBrowserPool_eq empty_pool_def)

lemma pool_size_step: "pool_size (pool_step x p) = pool_size p"
  by (cases x)
    (auto simp: acquireFromPool_def acquireTimeout_def releaseToPool_def
      removeBrowserFromPool_def replacementLaunched_def replacementFailed_def Let_def
      split: list.splits)

lemma pool_size_run: "pool_size (pool_run p xs) = pool_size p"
  by (induction xs arbitrary: p) (auto simp: pool_size_step)

text \<open>
  Arrival order once the launch loop has finished with nobody pending. In every state the
  pool then reaches by acquire, timeout,
  release, remove and replacement steps: a release with a caller pending resolves the
  first entry of \<^verbatim>\<open>pending\<close>, the one waiting longest, takes its timer out and leaves
  \<^verbatim>\<open>available\<close> as it is, and a release with none pending appends the session to
  \<^verbatim>\<open>available\<close>; whenever a step resolves a caller, either nobody was pending and the
  caller is the one acquiring, or the caller was first in \<^verbatim>\<open>pending\<close>; a step changes
  \<^verbatim>\<open>pending\<close> by appending one entry, dropping the first or taking one out, so the
  others keep their order. When callers \<open>cs\<close> acquire and then sessions \<open>bs\<close> are
  released, the callers served are the first of \<open>cs\<close>, in the order they came.
\<close>

theorem fifo_once_initialised:
  assumes "p = pool_run (initializeBrowserPool poolSize launch) ops"
  shows "(pending p = e # rest \<longrightarrow>
            grants (releaseToPool b p) = grants p @ [(e, b)]
            \<and> pending (releaseToPool b p) = rest
            \<and> timers (releaseToPool b p) = remove1 e (timers p)
            \<and> available (releaseToPool b p) = available p)
       \<and> (pending p = [] \<longrightarrow>
            available (releaseToPool b p) = available p @ [b]
            \<and> grants (releaseToPool b p) = grants p)
       \<and> (grants (pool_step x p) = grants p @ [(c, b')] \<longrightarrow>
            (pending p = [] \<and> x = Acquire c)
            \<or> (\<exists>others. pending p = c # others \<and> pending (pool_step x p) = others))
       \<and> (\<exists>c'. pending (pool_step x p) = pending p
              \<or> pending (pool_step x p) = pending p @ [c']
              \<or> pending (pool_step x p) = tl (pending p)
              \<or> pending (pool_step x p) = remove1 c' (pending p))
       \<and> grants (pool_run (initializeBrowserPool poolSize launch) (map Acquire cs @ map Release bs))
           = zip cs (launched poolSize launch)
             @ zip (drop (length (launched poolSize launch)) cs) bs
       \<and> (length (launched poolSize launch) + length bs \<le> length cs \<longrightarrow>
            map fst (grants (pool_run (initializeBrowserPool poolSize launch)
                       (map Acquire cs @ map Release bs)))
              = take (length (launched poolSize launch) + length bs) cs)"
proof -
  let ?p0 = "initializeBrowserPool poolSize launch"
  let ?L = "launched poolSize launch"
  have idle: "no_idle_while_waiting p"
    unfolding assms by (rule no_idle_run) (simp add: no_idle_while_waiting_def init_fields)
  have rel1: "pending p = e # rest \<longrightarrow>
            grants (releaseToPool b p) = grants p @ [(e, b)]
            \<and> pending (releaseToPool b p) = rest
            \<and> timers (releaseToPool b p) = remove1 e (timers p)
            \<and> available (releaseToPool b p) = available p"
    by (simp add: releaseToPool_def)
  have rel2: "pending p = [] \<longrightarrow>
            available (releaseToPool b p) = available p @ [b]
            \<and> grants (releaseToPool b p) = grants p"
    by (simp add: releaseToPool_def)
  have head: "grants (pool_step x p) = grants p @ [(c, b')] \<longrightarrow>
            (pending p = [] \<and> x = Acquire c)
            \<or> (\<exists>others. pending p = c # others \<and> pending (pool_step x p) = others)"
    using grant_to_head [OF idle] by blast
  have g: "grants (pool_run ?p0 (map Acquire cs @ map Release bs))
           = zip cs ?L @ zip (drop (length ?L) cs) bs"
    using acquire_many [of ?p0 cs] release_many [of "pool_run ?p0 (map Acquire cs)" bs]
    by (simp add: pool_run_append init_fields)
  have pre: "map fst (zip cs ?L @ zip (drop (length ?L) cs) bs) = take (length ?L + length bs) cs"
    if "length ?L + length bs \<le> length cs"
  proof -
    have "map fst (zip cs ?L) = take (length ?L) cs"
      using that by (simp add: map_fst_zip_take min_def)
    moreover have "map fst (zip (drop (length ?L) cs) bs) = take (length bs) (drop (length ?L) cs)"
      using that by (simp add: map_fst_zip_take min_def)
    ultimately show ?thesis by (simp add: take_add)
  qed
  show ?thesis
    using rel1 rel2 head pending_step [of x p] g pre by simp
qed

text \<open>
  Claim C3, amended. After any steps in which a session is released only by its holder, a
  session is removed only while it is one of the pool's and the sessions launched are new
  ones, the sessions checked out, the sessions available and the replacements being
  launched are together no more than the pool's size, which is the configured size and at
  least 1.
\<close>

theorem C3_capacity_in_disciplined_runs:
  assumes "distinct (launched poolSize launch)"
    and "run_ok (initializeBrowserPool poolSize launch) ops"
    and "p = pool_run (initializeBrowserPool poolSize launch) ops"
  shows "length (checked_out p) + length (available p) + replacing p \<le> pool_size p
         \<and> pool_size p = nat (max 1 poolSize)"
proof -
  have "pool_inv p"
    unfolding assms(3) by (rule pool_inv_run [OF pool_inv_init [OF assms(1)] assms(2)])
  then have "length (checked_out p) + length (available p) + replacing p \<le> pool_size p"
    using length_checked_out [of p] by (simp add: pool_inv_def)
  then show ?thesis
    by (simp add: assms(3) pool_size_run init_fields)
qed

text \<open>The arrival order on a pool of one session and three callers.\<close>

theorem fifo_once_initialised_witness:
  "grants (releaseToPool 10
      (pool_run (initializeBrowserPool 1 (launch_from 10)) [Acquire 1, Acquire 2, Acquire 3]))
     = [(1, 10), (2, 10)]
   \<and> pending (releaseToPool 10
      (pool_run (initializeBrowserPool 1 (launch_from 10)) [Acquire 1, Acquire 2, Acquire 3]))
     = [3]
   \<and> map fst (grants (pool_run (initializeBrowserPool 1 (launch_from 10))
        (map Acquire [1, 2, 3] @ map Release [10, 10])))
     = [1, 2, 3]"
proof -
  let ?p = "pool_run (initializeBrowserPool 1 (launch_from 10)) [Acquire 1, Acquire 2, Acquire 3]"
  have pe: "pending ?p = [2, 3]" and gr: "grants ?p = [(1, 10)]"
    by code_simp+
  have l: "length (launched 1 (launch_from 10)) = 1"
    by code_simp
  note inst = fifo_once_initialised
      [where p = ?p and poolSize = 1 and launch = "launch_from 10"
        and ops = "[Acquire 1, Acquire 2, Acquire 3]"
        and e = 2 and rest = "[3]" and b = 10 and x = "Release 10" and c = 2 and b' = 10
        and cs = "[1, 2, 3]" and bs = "[10, 10]", OF refl]
  have ab: "grants (releaseToPool 10 ?p) = grants ?p @ [(2, 10)]
            \<and> pending (releaseToPool 10 ?p) = [3]
            \<and> timers (releaseToPool 10 ?p) = remove1 2 (timers ?p)
            \<and> available (releaseToPool 10 ?p) = available ?p"
    using inst [THEN conjunct1] pe by (rule mp)
  have le: "length (launched 1 (launch_from 10)) + length [10, 10 :: nat] \<le> length [1, 2, 3 :: nat]"
    by (simp add: l)
  have c: "map fst (grants (pool_run (initializeBrowserPool 1 (launch_from 10))
        (map Acquire [1, 2, 3] @ map Release [10, 10])))
      = take (length (launched 1 (launch_from 10)) + length [10, 10 :: nat]) [1, 2, 3]"
    using inst [THEN conjunct2, THEN conjunct2, THEN conjunct2, THEN conjunct2, THEN conjunct2] le
    by (rule mp)
  have c': "take (length (launched 1 (launch_from 10)) + length [10, 10 :: nat]) [1, 2, 3 :: nat] = [1, 2, 3]"
    by (simp add: l)
  show ?thesis using ab c gr by (simp only: c') simp
qed

text \<open>Claim C3 on a pool of two sessions, one of them removed and replaced.\<close>

theorem C3_witness:
  "length (checked_out (pool_run (initializeBrowserPool 2 (launch_from 10))
       [Acquire 1, Remove 10, ReplacementLaunched 12, Acquire 2, Release 11]))
   + length (available (pool_run (initializeBrowserPool 2 (launch_from 10))
       [Acquire 1, Remove 10, ReplacementLaunched 12, Acquire 2, Release 11]))
   + replacing (pool_run (initializeBrowserPool 2 (launch_from 10))
       [Acquire 1, Remove 10, ReplacementLaunched 12, Acquire 2, Release 11])
   \<le> pool_size (pool_run (initializeBrowserPool 2 (launch_from 10))
       [Acquire 1, Remove 10, ReplacementLaunched 12, Acquire 2, Release 11])
   \<and> available (pool_run (initializeBrowserPool 2 (launch_from 10))
       [Acquire 1, Remove 10, ReplacementLaunched 12, Acquire 2, Release 11]) = [12, 11]"
proof -
  have d: "distinct (launched 2 (launch_from 10))"
    by code_simp
  have ok: "run_ok (initializeBrowserPool 2 (launch_from 10))
       [Acquire 1, Remove 10, ReplacementLaunched 12, Acquire 2, Release 11]"
    by code_simp
  have av: "available (pool_run (initializeBrowserPool 2 (launch_from 10))
       [Acquire 1, Remove 10, ReplacementLaunched 12, Acquire 2, Release 11]) = [12, 11]"
    by code_simp
  from C3_capacity_in_disciplined_runs [OF d ok refl] av show ?thesis
    by blast
qed

text \<open>
  Claim C3 as stated fails. In a pool of size 1 a remove of a session that is not the
  pool's, and two removes of the same session, are each followed by replacements that
  leave two sessions available.
\<close>

theorem C3_counterexample:
  "pool_size (pool_run (initializeBrowserPool 1 (launch_from 0)) [Remove 7, ReplacementLaunched 1]) = 1
   \<and> checked_out (pool_run (initializeBrowserPool 1 (launch_from 0)) [Remove 7, ReplacementLaunched 1]) = []
   \<and> available (pool_run (initializeBrowserPool 1 (launch_from 0)) [Remove 7, ReplacementLaunched 1]) = [0, 1]
   \<and> pool_size (pool_run (initializeBrowserPool 1 (launch_from 0))
        [Acquire 5, Remove 0, Remove 0, ReplacementLaunched 1, ReplacementLaunched 2]) = 1
   \<and> available (pool_run (initializeBrowserPool 1 (launch_from 0))
        [Acquire 5, Remove 0, Remove 0, ReplacementLaunched 1, ReplacementLaunched 2]) = [1, 2]"
  by code_simp

text \<open>
  Claim C2 on the code while the launch loop of \<^verbatim>\<open>initializeBrowserPool\<close> still runs.
  The claim says that no later caller is served before an earlier one that is still
  pending. In a pool of size 1, caller 1 acquires before the first launch has finished and
  is put in \<^verbatim>\<open>pending\<close>; the loop then pushes the launched session 10 on
  \<^verbatim>\<open>available\<close> and resolves nobody; caller 2 acquires and is served session 10 at once
  while caller 1 is still pending with its timer armed, and caller 1 is served only when
  caller 2 releases. The other place that pushes a new session, the replacement block of
  \<^verbatim>\<open>removeBrowserFromPool\<close>, does resolve the first pending caller after its pushes.
\<close>

theorem C2_later_caller_served_first_during_launch_loop:
  "pending (acquireFromPool 1 (empty_pool 1)) = [1]
   \<and> available (initLaunched 10 (acquireFromPool 1 (empty_pool 1))) = [10]
   \<and> pending (initLaunched 10 (acquireFromPool 1 (empty_pool 1))) = [1]
   \<and> grants (initLaunched 10 (acquireFromPool 1 (empty_pool 1))) = []
   \<and> grants (acquireFromPool 2 (initLaunched 10 (acquireFromPool 1 (empty_pool 1)))) = [(2, 10)]
   \<and> pending (acquireFromPool 2 (initLaunched 10 (acquireFromPool 1 (empty_pool 1)))) = [1]
   \<and> timers (acquireFromPool 2 (initLaunched 10 (acquireFromPool 1 (empty_pool 1)))) = [1]
   \<and> grants (releaseToPool 10
         (acquireFromPool 2 (initLaunched 10 (acquireFromPool 1 (empty_pool 1)))))
       = [(2, 10), (1, 10)]
   \<and> grants (pool_run (initializeBrowserPool 1 (launch_from 9))
         [Acquire 0, Acquire 1, Remove 9, ReplacementLaunched 10])
       = [(0, 9), (1, 10)]"
  by code_simp

section \<open>Properties of withRetry\<close>

lemma withRetry_loop_succeeds:
  assumes "\<forall>j. i \<le> j \<and> j < k \<longrightarrow> (\<exists>e. task j = Inl e \<and> is_transient e)"
    and "task k = Inr v" and "k < attempts" and "i \<le> k"
  shows "withRetry_loop task attempts i lastErr st
           = (Inr v, \<lparr>delays = delays st @ map (\<lambda>j. 500 + j * 200) [i..<k],
                      recoveries = recoveries st + (k - i)\<rparr>)"
  using assms
proof (induction "k - i" arbitrary: i lastErr st)
  case 0
  then have "i = k" by simp
  then show ?case using "0.prems"
    by (simp add: withRetry_loop.simps [of task attempts k])
next
  case (Suc n)
  then have lt: "i < k" by simp
  then obtain e where e: "task i = Inl e" "is_transient e"
    using Suc.prems(1) by auto
  have step: "withRetry_loop task attempts i lastErr st
      = withRetry_loop task attempts (i + 1) (Some e)
          \<lparr>delays = delays st @ [500 + i * 200], recoveries = recoveries st + 1\<rparr>"
    using lt Suc.prems(3) e by (simp add: withRetry_loop.simps [of task attempts i])
  have "n = k - (i + 1)" using Suc.hyps(2) by simp
  moreover have "\<forall>j. i + 1 \<le> j \<and> j < k \<longrightarrow> (\<exists>e. task j = Inl e \<and> is_transient e)"
    using Suc.prems(1) by auto
  ultimately have "withRetry_loop task attempts (i + 1) (Some e)
          \<lparr>delays = delays st @ [500 + i * 200], recoveries = recoveries st + 1\<rparr>
      = (Inr v, \<lparr>delays = (delays st @ [500 + i * 200]) @ map (\<lambda>j. 500 + j * 200) [i + 1..<k],
                 recoveries = (recoveries st + 1) + (k - (i + 1))\<rparr>)"
    using Suc.hyps(1) [of "i + 1" "Some e"] Suc.prems(2,3) lt by simp
  then show ?case using step lt by (simp add: upt_conv_Cons)
qed

lemma withRetry_loop_done:
  "withRetry_loop task attempts attempts lastErr st = (Inl lastErr, st)"
  by (subst withRetry_loop.simps) simp

lemma withRetry_loop_exhausted:
  assumes "\<forall>j. i \<le> j \<and> j < attempts \<longrightarrow> (\<exists>e. task j = Inl e)"
    and "task (attempts - 1) = Inl err" and "i < attempts"
  shows "withRetry_loop task attempts i lastErr st
           = (Inl (Some err), \<lparr>delays = delays st @ map (\<lambda>j. 500 + j * 200) [i..<attempts],
                recoveries = recoveries st
                  + length (filter (\<lambda>j. \<exists>e. task j = Inl e \<and> is_transient e) [i..<attempts])\<rparr>)"
  using assms
proof (induction "attempts - i" arbitrary: i lastErr st)
  case 0
  then show ?case by simp
next
  case (Suc n)
  obtain e where e: "task i = Inl e"
    using Suc.prems(1,3) by auto
  let ?st = "\<lparr>delays = delays st @ [500 + i * 200],
                recoveries = (if is_transient e then recoveries st + 1 else recoveries st)\<rparr>"
  have step: "withRetry_loop task attempts i lastErr st
      = withRetry_loop task attempts (i + 1) (Some e) ?st"
    using Suc.prems(3) e by (simp add: withRetry_loop.simps [of task attempts i])
  show ?case
  proof (cases "i + 1 < attempts")
    case True
    have "n = attempts - (i + 1)" using Suc.hyps(2) by simp
    moreover have "\<forall>j. i + 1 \<le> j \<and> j < attempts \<longrightarrow> (\<exists>e. task j = Inl e)"
      using Suc.prems(1) by auto
    ultimately have "withRetry_loop task attempts (i + 1) (Some e) ?st
      = (Inl (Some err), \<lparr>delays = delays ?st @ map (\<lambda>j. 500 + j * 200) [i + 1..<attempts],
                recoveries = recoveries ?st
                  + length (filter (\<lambda>j. \<exists>e. task j = Inl e \<and> is_transient e) [i + 1..<attempts])\<rparr>)"
      using Suc.hyps(1) [of "i + 1" "Some e" ?st] Suc.prems(2) True by simp
    then show ?thesis using step Suc.prems(3) e by (simp add: upt_conv_Cons)
  next
    case False
    then have last: "i = attempts - 1" "i + 1 = attempts" using Suc.prems(3) by simp_all
    then have "e = err" using e Suc.prems(2) by simp
    moreover have "withRetry_loop task attempts (i + 1) (Some e) ?st = (Inl (Some e), ?st)"
      unfolding last(2) by (rule withRetry_loop_done)
    moreover have "[i..<attempts] = [i]"
      using last(2) by (metis upt_rec upt_eq_Nil_conv lessI less_irrefl_nat Suc_eq_plus1)
    ultimately show ?thesis using step e by simp
  qed
qed

text \<open>
  Claim C4. When the first \<open>k\<close> calls of the task throw errors that the pattern classes
  as transient, the next call returns \<open>v\<close> and at least \<open>k + 1\<close> attempts are allowed,
  \<^verbatim>\<open>withRetry\<close> returns \<open>v\<close>, has waited exactly \<open>k\<close> times, the wait number \<open>i\<close>
  being \<open>500 + i * 200\<close> milliseconds, and has reinitialised the browser \<open>k\<close> times.
\<close>

theorem C4_retry_until_success:
  assumes "\<forall>j<k. \<exists>e. task j = Inl e \<and> is_transient e"
    and "task k = Inr v" and "k + 1 \<le> attempts"
  shows "withRetry task attempts st
           = (Inr v, \<lparr>delays = delays st @ backoff k, recoveries = recoveries st + k\<rparr>)
         \<and> length (backoff k) = k
         \<and> (\<forall>i<k. backoff k ! i = 500 + i * 200)"
proof -
  have "withRetry task attempts st
           = (Inr v, \<lparr>delays = delays st @ backoff k, recoveries = recoveries st + k\<rparr>)"
    using withRetry_loop_succeeds [of 0 k task v attempts None st] assms
    by (simp add: withRetry_def backoff_def)
  then show ?thesis by (simp add: backoff_def)
qed

text \<open>Claim C4 on a task that fails twice, with three attempts allowed.\<close>

theorem C4_witness:
  "withRetry (flaky_task 2 [mk_product ''Phone X'' (Some 100)]) 3 retry_start
     = (Inr [mk_product ''Phone X'' (Some 100)], \<lparr>delays = [500, 700], recoveries = 2\<rparr>)"
proof -
  have t: "is_transient (Error ''Protocol error (Target.createTarget): Target closed'')"
    by (simp add: is_transient_def)
  have f: "\<forall>j<2. \<exists>e. flaky_task 2 [mk_product ''Phone X'' (Some 100)] j = Inl e \<and> is_transient e"
    using t by (simp add: flaky_task_def)
  have s: "flaky_task 2 [mk_product ''Phone X'' (Some 100)] 2 = Inr [mk_product ''Phone X'' (Some 100)]"
    by (simp add: flaky_task_def)
  have b: "backoff 2 = [500, 700]"
    by (simp add: backoff_def upt_conv_Cons)
  show ?thesis
    using C4_retry_until_success [OF f s, of 3 retry_start]
    by (simp add: b retry_start_def)
qed

text \<open>
  Claim C5. When every one of the \<open>attempts\<close> calls of the task throws, transient or not,
  and there is at least one attempt, \<^verbatim>\<open>withRetry\<close> throws the very error of the last
  call, after a wait behind each failure.
\<close>

theorem C5_last_error_rethrown:
  assumes "\<forall>j<attempts. \<exists>e. task j = Inl e"
    and "0 < attempts" and "task (attempts - 1) = Inl err"
  shows "fst (withRetry task attempts st) = Inl (Some err)
         \<and> delays (snd (withRetry task attempts st)) = delays st @ backoff attempts"
  using withRetry_loop_exhausted [of 0 attempts task err None st] assms
  by (simp add: withRetry_def backoff_def)

text \<open>Claim C5 on a task whose errors differ from call to call, with two attempts.\<close>

theorem C5_witness:
  "fst (withRetry (failing_task :: nat \<Rightarrow> js_error + product list) 2 retry_start)
     = Inl (Some (Error ''net::ERR_FAILED on call 1''))"
proof -
  have a: "\<forall>j<2. \<exists>e. (failing_task :: nat \<Rightarrow> js_error + product list) j = Inl e"
    by (simp add: failing_task_def)
  have l: "(failing_task :: nat \<Rightarrow> js_error + product list) (2 - 1) = Inl (Error ''net::ERR_FAILED on call 1'')"
    by (simp add: failing_task_def show_nat.simps digit_char_def)
  show ?thesis
    using C5_last_error_rethrown [OF a _ l, of retry_start] by simp
qed

section \<open>Properties of the orchestrator and the route\<close>

lemma scrape_loop_2:
  "scrape_loop resolve has_pool site envs 2 lastErr tr = (Inl (final_error lastErr), tr)"
  by (subst scrape_loop.simps) simp

lemma scrape_loop_1:
  "scrape_loop resolve has_pool site envs 1 lastErr tr =
     (case scrape_attempt resolve has_pool site (envs 1) of
        (Inr d, t) \<Rightarrow> (Inr d, tr @ t)
      | (Inl e, t) \<Rightarrow> (Inl (final_error (Some e)), tr @ t @ [Wait 600]))"
proof -
  have two: "(1::nat) + 1 = 2" by simp
  show ?thesis
    by (subst scrape_loop.simps) (simp only: two scrape_loop_2, simp split: prod.splits sum.splits)
qed

lemma scrape_loop_unrolled:
  "scrapeSiteWithTempBrowser resolve has_pool site envs =
     (case scrape_attempt resolve has_pool site (envs 0) of
        (Inr d, t) \<Rightarrow> (Inr d, t)
      | (Inl e, t) \<Rightarrow>
          (case scrape_attempt resolve has_pool site (envs 1) of
             (Inr d, t') \<Rightarrow> (Inr d, t @ [Wait 600] @ t')
           | (Inl e', t') \<Rightarrow> (Inl (final_error (Some e')), t @ [Wait 600] @ t' @ [Wait 600])))"
proof -
  have one: "(0::nat) + 1 = 1" by simp
  show ?thesis
    unfolding scrapeSiteWithTempBrowser_def
    by (subst scrape_loop.simps) (simp only: one scrape_loop_1, simp split: prod.splits sum.splits)
qed

lemma launch_iff:
  "LaunchCall \<in> set (snd (scrape_attempt resolve has_pool site env))
     \<longleftrightarrow> \<not> has_pool \<or> isl (acquire_res env)"
  by (auto simp: scrape_attempt_def scrape_with_browser_def Let_def
      split: sum.splits option.splits prod.splits if_splits)

lemma pooled_round:
  "has_pool \<Longrightarrow> acquire_res env = Inr b \<Longrightarrow>
     scrape_attempt resolve has_pool site env =
       (fst (scrape_with_browser resolve site env b True),
        AcquireCall # snd (scrape_with_browser resolve site env b True))"
  by (simp add: scrape_attempt_def Let_def split: prod.splits)

lemma empty_pooled_round:
  "has_pool \<Longrightarrow> acquire_res env = Inr b \<Longrightarrow> newPage_res env = None \<Longrightarrow> page_res env = Inr [] \<Longrightarrow>
     scrape_attempt resolve has_pool site env =
       (Inr [], [AcquireCall, NewPageCall b, PageWork b, ReleaseCall b])"
  by (simp add: scrape_attempt_def scrape_with_browser_def page_work_def Let_def)

text \<open>
  Claim C1, amended. A first round that returns, with products or with none, ends
  \<^verbatim>\<open>scrapeSiteWithTempBrowser\<close> with its result: there is no second round. A first round
  that throws is followed by a wait of 600 ms and one more round, whose result or error is
  the outcome. In any round a browser is launched exactly when there is no pool or the
  acquire throws; with a pool that gives a session the round works on that session, and an
  empty page result is returned after the session is released.
\<close>

theorem C1_second_round_only_after_error:
  "(case scrape_attempt resolve has_pool site (envs 0) of
      (Inr d, t) \<Rightarrow> scrapeSiteWithTempBrowser resolve has_pool site envs = (Inr d, t)
    | (Inl e, t) \<Rightarrow>
        scrapeSiteWithTempBrowser resolve has_pool site envs =
          (case scrape_attempt resolve has_pool site (envs 1) of
             (Inr d, t') \<Rightarrow> (Inr d, t @ [Wait 600] @ t')
           | (Inl e', t') \<Rightarrow> (Inl (final_error (Some e')), t @ [Wait 600] @ t' @ [Wait 600])))
   \<and> (LaunchCall \<in> set (snd (scrape_attempt resolve has_pool site env))
        \<longleftrightarrow> \<not> has_pool \<or> isl (acquire_res env))
   \<and> (has_pool \<and> acquire_res env = Inr b \<longrightarrow>
        scrape_attempt resolve has_pool site env =
          (fst (scrape_with_browser resolve site env b True),
           AcquireCall # snd (scrape_with_browser resolve site env b True)))
   \<and> (has_pool \<and> acquire_res env = Inr b \<and> newPage_res env = None \<and> page_res env = Inr [] \<longrightarrow>
        scrape_attempt resolve has_pool site env =
          (Inr [], [AcquireCall, NewPageCall b, PageWork b, ReleaseCall b]))"
proof -
  have one: "(case scrape_attempt resolve has_pool site (envs 0) of
      (Inr d, t) \<Rightarrow> scrapeSiteWithTempBrowser resolve has_pool site envs = (Inr d, t)
    | (Inl e, t) \<Rightarrow>
        scrapeSiteWithTempBrowser resolve has_pool site envs =
          (case scrape_attempt resolve has_pool site (envs 1) of
             (Inr d, t') \<Rightarrow> (Inr d, t @ [Wait 600] @ t')
           | (Inl e', t') \<Rightarrow> (Inl (final_error (Some e')), t @ [Wait 600] @ t' @ [Wait 600])))"
    by (simp add: scrape_loop_unrolled [of resolve has_pool site envs] split: prod.splits sum.splits)
  show ?thesis
    using one launch_iff [of resolve has_pool site env] pooled_round [of has_pool env b resolve site]
      empty_pooled_round [of has_pool env b resolve site]
    by blast
qed

lemmas scrape_eval = scrape_loop_unrolled scrape_attempt_def scrape_with_browser_def page_work_def
  Let_def pooled_env_def failing_env_def two_rounds_def dead_world_def known_sites_def
  normalize_link_def mk_product_def final_error_def

text \<open>Claim C1 on a pooled round that throws and a second round in which nothing can be had.\<close>

theorem C1_witness:
  "scrapeSiteWithTempBrowser no_resolve True ''myntra''
      (two_rounds (pooled_env 1 (Inl (Error ''Protocol error''))) failing_env)
    = (Inl (Error ''Failed to launch the browser process''),
       [AcquireCall, NewPageCall 1, PageWork 1, RemoveCall 1, Wait 600,
        AcquireCall, LaunchCall, Wait 600])"
proof -
  let ?envs = "two_rounds (pooled_env 1 (Inl (Error ''Protocol error''))) failing_env"
  have r0: "scrape_attempt no_resolve True ''myntra'' (?envs 0)
      = (Inl (Error ''Protocol error''), [AcquireCall, NewPageCall 1, PageWork 1, RemoveCall 1])"
    by (simp add: scrape_eval)
  have r1: "scrape_attempt no_resolve True ''myntra'' (?envs 1)
      = (Inl (Error ''Failed to launch the browser process''), [AcquireCall, LaunchCall])"
    by (simp add: scrape_eval)
  note inst = C1_second_round_only_after_error
      [where resolve = no_resolve and has_pool = True and site = "''myntra''" and envs = ?envs
        and env = failing_env and b = 1, THEN conjunct1]
  from inst show ?thesis
    unfolding r0 r1 by (simp add: final_error_def)
qed

text \<open>
  Claim C1 as stated fails. A pooled round that gives an empty list is the whole scrape:
  no browser is launched and nothing is extracted again. After a pooled round that throws,
  the second round takes a session of the pool again and launches no browser.
\<close>

theorem C1_counterexample:
  "scrapeSiteWithTempBrowser no_resolve True ''amazon''
      (two_rounds (pooled_env 1 (Inr [])) failing_env)
     = (Inr [], [AcquireCall, NewPageCall 1, PageWork 1, ReleaseCall 1])
   \<and> scrapeSiteWithTempBrowser no_resolve True ''amazon''
      (two_rounds (pooled_env 1 (Inl (Error ''Protocol error'')))
         (pooled_env 2 (Inr [mk_product ''Phone X'' (Some 100)])))
     = (Inr [mk_product ''Phone X'' (Some 100)],
        [AcquireCall, NewPageCall 1, PageWork 1, RemoveCall 1, Wait 600,
         AcquireCall, NewPageCall 2, PageWork 2, ReleaseCall 2])"
  by (simp add: scrape_eval)

lemma site_step_eq:
  "site_step resolve has_pool world acc site =
     (fst acc @ site_result resolve has_pool world site,
      snd acc @ snd (scrapeSiteWithTempBrowser resolve has_pool site (world site)))"
  by (simp add: site_step_def site_result_def split: prod.splits sum.splits)

lemma foldl_site_step:
  "foldl (site_step resolve has_pool world) acc sites =
     (fst acc @ concat (map (site_result resolve has_pool world) sites),
      snd acc @ concat (map (\<lambda>site. snd (scrapeSiteWithTempBrowser resolve has_pool site (world site))) sites))"
  by (induction sites arbitrary: acc) (simp_all add: site_step_eq)

lemma scrapeMultipleSites_eq:
  "scrapeMultipleSites resolve has_pool world =
     (deduplicateAndSort (concat (map (site_result resolve has_pool world) known_sites)),
      concat (map (\<lambda>site. snd (scrapeSiteWithTempBrowser resolve has_pool site (world site))) known_sites))"
  by (simp add: scrapeMultipleSites_def foldl_site_step)

lemma deduplicateAndSort_Nil: "deduplicateAndSort [] = []"
  by (simp add: deduplicateAndSort_def unique_products_Nil)

text \<open>
  Claim C8. A query of at least two characters after trimming is answered 200 with the
  trimmed query and the deduplicated, sorted products of the four sites, whatever the
  world answers: a site whose scrape throws adds nothing, every site is scraped whether or
  not the ones before it threw, and when every site throws or gives nothing the results
  are the empty list.
\<close>

theorem C8_valid_query_always_200:
  assumes "2 \<le> length (trim query)"
  shows "compare_prices resolve has_pool world (Str query) =
           \<lparr>status = 200,
            body = ResultsBody (trim query)
              (deduplicateAndSort (concat (map (site_result resolve has_pool world) known_sites)))\<rparr>
         \<and> snd (scrapeMultipleSites resolve has_pool world) =
             concat (map (\<lambda>site. snd (scrapeSiteWithTempBrowser resolve has_pool site (world site)))
               known_sites)
         \<and> site_result resolve has_pool world site =
             (case fst (scrapeSiteWithTempBrowser resolve has_pool site (world site)) of
                Inr result \<Rightarrow> result | Inl err \<Rightarrow> [])
         \<and> ((\<forall>s \<in> set known_sites.
                fst (scrapeSiteWithTempBrowser resolve has_pool s (world s)) = Inr []
                \<or> isl (fst (scrapeSiteWithTempBrowser resolve has_pool s (world s))))
             \<longrightarrow> compare_prices resolve has_pool world (Str query) =
                   \<lparr>status = 200, body = ResultsBody (trim query) []\<rparr>)"
proof -
  have ne: "query \<noteq> []" using assms by (auto simp: trim_def)
  have resp: "compare_prices resolve has_pool world (Str query) =
           \<lparr>status = 200,
            body = ResultsBody (trim query)
              (deduplicateAndSort (concat (map (site_result resolve has_pool world) known_sites)))\<rparr>"
    using assms ne by (simp add: compare_prices_def scrapeMultipleSites_eq)
  have empty: "concat (map (site_result resolve has_pool world) known_sites) = []"
    if "\<forall>s \<in> set known_sites.
                fst (scrapeSiteWithTempBrowser resolve has_pool s (world s)) = Inr []
                \<or> isl (fst (scrapeSiteWithTempBrowser resolve has_pool s (world s)))"
  proof -
    have "site_result resolve has_pool world s = []" if "s \<in> set known_sites" for s
      using that \<open>\<forall>s \<in> set known_sites. _\<close>
      by (auto simp: site_result_def isl_def split: sum.splits)
    then show ?thesis by simp
  qed
  have tr: "snd (scrapeMultipleSites resolve has_pool world) =
             concat (map (\<lambda>site. snd (scrapeSiteWithTempBrowser resolve has_pool site (world site)))
               known_sites)"
    by (simp add: scrapeMultipleSites_eq)
  have sr: "site_result resolve has_pool world site =
             (case fst (scrapeSiteWithTempBrowser resolve has_pool site (world site)) of
                Inr result \<Rightarrow> result | Inl err \<Rightarrow> [])"
    by (simp add: site_result_def)
  have none: "(\<forall>s \<in> set known_sites.
                fst (scrapeSiteWithTempBrowser resolve has_pool s (world s)) = Inr []
                \<or> isl (fst (scrapeSiteWithTempBrowser resolve has_pool s (world s))))
             \<longrightarrow> compare_prices resolve has_pool world (Str query) =
                   \<lparr>status = 200, body = ResultsBody (trim query) []\<rparr>"
  proof
    assume "\<forall>s \<in> set known_sites.
                fst (scrapeSiteWithTempBrowser resolve has_pool s (world s)) = Inr []
                \<or> isl (fst (scrapeSiteWithTempBrowser resolve has_pool s (world s)))"
    then have "concat (map (site_result resolve has_pool world) known_sites) = []"
      by (rule empty)
    then show "compare_prices resolve has_pool world (Str query) =
                   \<lparr>status = 200, body = ResultsBody (trim query) []\<rparr>"
      using resp by (simp only: deduplicateAndSort_Nil)
  qed
  show ?thesis
    using resp tr sr none by (intro conjI)
qed

lemma dead_site:
  "scrapeSiteWithTempBrowser no_resolve True s (dead_world s)
     = (Inl (Error ''Failed to launch the browser process''),
        [AcquireCall, LaunchCall, Wait 600, AcquireCall, LaunchCall, Wait 600])"
  by (simp add: scrape_eval)

text \<open>Claim C8 in the world where every call throws.\<close>

theorem C8_witness:
  "compare_prices no_resolve True dead_world (Str ''  laptop '')
     = \<lparr>status = 200, body = ResultsBody ''laptop'' []\<rparr>"
proof -
  have t: "trim ''  laptop '' = ''laptop''"
    by (simp add: trim_def is_space_def)
  have len: "2 \<le> length (trim ''  laptop '')"
    by (simp add: t)
  have all: "\<forall>s \<in> set known_sites.
                fst (scrapeSiteWithTempBrowser no_resolve True s (dead_world s)) = Inr []
                \<or> isl (fst (scrapeSiteWithTempBrowser no_resolve True s (dead_world s)))"
    by (simp add: dead_site)
  note inst = C8_valid_query_always_200 [OF len, of no_resolve True dead_world "''amazon''"]
  have "compare_prices no_resolve True dead_world (Str ''  laptop '') =
                   \<lparr>status = 200, body = ResultsBody (trim ''  laptop '') []\<rparr>"
    using inst [THEN conjunct2, THEN conjunct2, THEN conjunct2] all by (rule mp)
  then show ?thesis by (simp only: t)
qed

text \<open>
  Claim C9, amended. A query that is missing, or shorter than two characters after
  trimming, as the one-character query, is answered 400 with the error message; the
  two-character query is answered 200.
\<close>

theorem C9_short_query_rejected:
  "(length (trim query) < 2 \<longrightarrow>
      compare_prices resolve has_pool world (Str query)
        = \<lparr>status = 400, body = ErrorBody ''Query must be at least 2 characters long''\<rparr>)
   \<and> compare_prices resolve has_pool world Falsy
        = \<lparr>status = 400, body = ErrorBody ''Query must be at least 2 characters long''\<rparr>
   \<and> compare_prices resolve has_pool world (Str ''a'')
        = \<lparr>status = 400, body = ErrorBody ''Query must be at least 2 characters long''\<rparr>
   \<and> status (compare_prices resolve has_pool world (Str ''ab'')) = 200"
proof -
  have a: "trim ''a'' = ''a''" and ab: "trim ''ab'' = ''ab''"
    by (simp_all add: trim_def is_space_def)
  show ?thesis
    by (simp add: compare_prices_def a ab)
qed

text \<open>Claim C9 on a one-character query between two spaces.\<close>

theorem C9_witness:
  "compare_prices no_resolve True dead_world (Str '' a '')
     = \<lparr>status = 400, body = ErrorBody ''Query must be at least 2 characters long''\<rparr>"
proof -
  have "length (trim '' a '') < 2"
    by (simp add: trim_def is_space_def)
  then show ?thesis
    using C9_short_query_rejected [of "'' a ''" no_resolve True dead_world] by simp
qed

text \<open>
  Claim C9 as stated fails: the query of the two characters ab is answered 200, here with
  no products since every call throws.
\<close>

theorem C9_counterexample:
  "compare_prices no_resolve True dead_world (Str ''ab'')
     = \<lparr>status = 200, body = ResultsBody ''ab'' []\<rparr>"
proof -
  have ab: "trim ''ab'' = ''ab''"
    by (simp add: trim_def is_space_def)
  have sr: "site_result no_resolve True dead_world s = []" for s
    by (simp add: site_result_def dead_site)
  have "fst (scrapeMultipleSites no_resolve True dead_world) = []"
    by (simp add: scrapeMultipleSites_eq sr known_sites_def deduplicateAndSort_Nil)
  then show ?thesis
    by (simp add: compare_prices_def ab)
qed

end
